theory Spec2Isabelle
  imports Main "HOL-Library.Word"
begin

section \<open>JavaScript strings\<close>

text \<open>
  A JavaScript string is a sequence of 16-bit code units. String literals of the
  source are written with \<open>js\<close>, which maps every character of an Isabelle string to
  the code unit of the same number.
\<close>

type_synonym code_unit = "16 word"
type_synonym jsstring = "code_unit list"

definition js :: "string \<Rightarrow> jsstring" where
  "js s = map (\<lambda>c. of_nat (of_char c)) s"

text \<open>\<^verbatim>\<open>s.startsWith(p)\<close>, \<^verbatim>\<open>s.endsWith(p)\<close>, \<^verbatim>\<open>s.slice(a)\<close> and \<^verbatim>\<open>s.slice(a, b)\<close>
  for non-negative \<open>a\<close> and \<open>b\<close> (the only way the source calls them).\<close>

definition startsWith :: "jsstring \<Rightarrow> jsstring \<Rightarrow> bool" where
  "startsWith s p = (take (length p) s = p)"

definition endsWith :: "jsstring \<Rightarrow> jsstring \<Rightarrow> bool" where
  "endsWith s p = (length p \<le> length s \<and> drop (length s - length p) s = p)"

definition slice_from :: "jsstring \<Rightarrow> nat \<Rightarrow> jsstring" where
  "slice_from s a = drop a s"

definition slice_str :: "jsstring \<Rightarrow> nat \<Rightarrow> nat \<Rightarrow> jsstring" where
  "slice_str s a b = take (b - a) (drop a s)"

text \<open>\<^verbatim>\<open>s.indexOf(p, from)\<close>: the least position at or after \<open>from\<close> (clamped to the
  length) where \<open>p\<close> occurs; \<open>None\<close> stands for the result \<open>-1\<close>.\<close>

fun find_sub :: "jsstring \<Rightarrow> jsstring \<Rightarrow> nat option" where
  "find_sub p [] = (if p = [] then Some 0 else None)"
| "find_sub p (x # xs) =
     (if take (length p) (x # xs) = p then Some 0 else map_option Suc (find_sub p xs))"

definition indexOf :: "jsstring \<Rightarrow> jsstring \<Rightarrow> nat \<Rightarrow> nat option" where
  "indexOf s p from =
     (let k = min from (length s) in map_option (\<lambda>i. k + i) (find_sub p (drop k s)))"

section \<open>Markdown normalization: \<open>dropMarkdownQuote\<close>\<close>

text \<open>The argument \<^verbatim>\<open>markdown?: string | null\<close> and the result \<^verbatim>\<open>string | null\<close>.\<close>

datatype js_value = Undefined | Null | Str jsstring

record fence =
  prefix :: jsstring
  suffix :: jsstring
  prefixLen :: nat

definition patternsToRemove :: "fence list" where
  "patternsToRemove =
     [\<lparr>prefix = js ''```markdown\<newline>'', suffix = js ''\<newline>```'', prefixLen = 12\<rparr>,
      \<lparr>prefix = js ''```text\<newline>'', suffix = js ''\<newline>```'', prefixLen = 8\<rparr>,
      \<lparr>prefix = js ''```\<newline>'', suffix = js ''\<newline>```'', prefixLen = 4\<rparr>]"

text \<open>The first \<^verbatim>\<open>for\<close> loop: the first pattern whose prefix starts the string while its
  suffix does not end it has its prefix cut off, and the loop breaks.\<close>

fun strip_unterminated :: "fence list \<Rightarrow> jsstring \<Rightarrow> jsstring" where
  "strip_unterminated [] result = result"
| "strip_unterminated (f # fs) result =
     (if startsWith result (prefix f) \<and> \<not> endsWith result (suffix f)
      then slice_from result (prefixLen f)
      else strip_unterminated fs result)"

text \<open>The removal of one matched pair: the pattern's prefix was found at \<open>startIndex\<close>
  and its suffix at \<open>endIndex\<close>. The result is the new string and the new
  \<open>startIndex\<close>.\<close>

definition remove_pair :: "fence \<Rightarrow> jsstring \<Rightarrow> nat \<Rightarrow> nat \<Rightarrow> jsstring \<times> nat" where
  "remove_pair f result startIndex endIndex =
     (let before = slice_str result 0 startIndex;
          content = slice_str result (startIndex + prefixLen f) endIndex;
          after = slice_from result (endIndex + length (suffix f))
      in (before @ content @ after, length before + length content))"

text \<open>The inner \<^verbatim>\<open>while\<close> loop for one pattern, on the state \<open>(result, changed,
  startIndex)\<close>. A loop that does not return is the value \<open>None\<close>.\<close>

partial_function (option) scan ::
  "fence \<Rightarrow> jsstring \<Rightarrow> bool \<Rightarrow> nat \<Rightarrow> (jsstring \<times> bool) option" where
  "scan f result changed startIndex =
     (case indexOf result (prefix f) startIndex of
        None \<Rightarrow> Some (result, changed)
      | Some p \<Rightarrow>
          (case indexOf result (suffix f) (p + prefixLen f) of
             Some endIndex \<Rightarrow>
               (case remove_pair f result p endIndex of
                  (result', startIndex') \<Rightarrow> scan f result' True startIndex')
           | None \<Rightarrow> scan f result changed (p + prefixLen f)))"

declare scan.simps [code]

text \<open>The \<^verbatim>\<open>for\<close> loop over the patterns inside the outer loop.\<close>

fun sweep :: "fence list \<Rightarrow> jsstring \<Rightarrow> bool \<Rightarrow> (jsstring \<times> bool) option" where
  "sweep [] result changed = Some (result, changed)"
| "sweep (f # fs) result changed =
     (case scan f result changed 0 of
        None \<Rightarrow> None
      | Some (result', changed') \<Rightarrow> sweep fs result' changed')"

text \<open>The outer \<^verbatim>\<open>while (changed)\<close> loop: each round resets \<open>changed\<close> and sweeps all
  patterns.\<close>

partial_function (option) sweep_loop :: "jsstring \<Rightarrow> jsstring option" where
  "sweep_loop result =
     (case sweep patternsToRemove result False of
        None \<Rightarrow> None
      | Some (result', changed) \<Rightarrow> if changed then sweep_loop result' else Some result')"

declare sweep_loop.simps [code]

text \<open>\<open>dropMarkdownQuote\<close>: \<^verbatim>\<open>if (!markdown) return null\<close> holds for \<open>undefined\<close>,
  \<open>null\<close> and the empty string. The result \<open>None\<close> means that the call does not return.\<close>

definition dropMarkdownQuote :: "js_value \<Rightarrow> js_value option" where
  "dropMarkdownQuote markdown =
     (case markdown of
        Str s \<Rightarrow>
          if s = [] then Some Null
          else map_option Str (sweep_loop (strip_unterminated patternsToRemove s))
      | _ \<Rightarrow> Some Null)"

text \<open>The call site in \<open>Markdown\<close>: \<^verbatim>\<open>dropMarkdownQuote(...) ?? ""\<close>.\<close>

definition or_empty :: "js_value \<Rightarrow> jsstring" where
  "or_empty v = (case v of Str s \<Rightarrow> s | _ \<Rightarrow> [])"


section \<open>Built-ins of the host language used by the citation code\<close>

text \<open>Decimal digits (\<^verbatim>\<open>\d\<close>), and the white space and line terminator code units that
  \<^verbatim>\<open>\s\<close> matches and \<^verbatim>\<open>trim()\<close> removes.\<close>

definition is_digit :: "code_unit \<Rightarrow> bool" where
  "is_digit c = (0x30 \<le> c \<and> c \<le> 0x39)"

definition is_space :: "code_unit \<Rightarrow> bool" where
  "is_space c =
     (c \<in> set [0x09, 0x0A, 0x0B, 0x0C, 0x0D, 0x20, 0xA0, 0x1680, 0x2028, 0x2029, 0x202F,
                0x205F, 0x3000, 0xFEFF]
      \<or> (0x2000 \<le> c \<and> c \<le> 0x200A))"

definition trim :: "jsstring \<Rightarrow> jsstring" where
  "trim s = rev (dropWhile is_space (rev (dropWhile is_space s)))"

text \<open>\<^verbatim>\<open>String(n)\<close> for a non-negative integer \<open>n\<close>.\<close>

fun decimal :: "nat \<Rightarrow> jsstring" where
  "decimal n =
     (if n < 10 then [of_nat (0x30 + n)] else decimal (n div 10) @ [of_nat (0x30 + n mod 10)])"

subsection \<open>\<open>decodeURIComponent\<close>\<close>

definition hex_value :: "code_unit \<Rightarrow> nat option" where
  "hex_value c =
     (if 0x30 \<le> c \<and> c \<le> 0x39 then Some (unat c - 0x30)
      else if 0x41 \<le> c \<and> c \<le> 0x46 then Some (unat c - 0x41 + 10)
      else if 0x61 \<le> c \<and> c \<le> 0x66 then Some (unat c - 0x61 + 10)
      else None)"

definition hex_octet :: "code_unit \<Rightarrow> code_unit \<Rightarrow> nat option" where
  "hex_octet a b =
     (case hex_value a of
        None \<Rightarrow> None
      | Some x \<Rightarrow> (case hex_value b of None \<Rightarrow> None | Some y \<Rightarrow> Some (16 * x + y)))"

text \<open>The number of leading 1 bits of an octet (5 stands for five or more).\<close>

definition leading_ones :: "nat \<Rightarrow> nat" where
  "leading_ones b =
     (if b < 0x80 then 0 else if b < 0xC0 then 1 else if b < 0xE0 then 2
      else if b < 0xF0 then 3 else if b < 0xF8 then 4 else 5)"

definition continuation :: "nat \<Rightarrow> bool" where
  "continuation b = (0x80 \<le> b \<and> b < 0xC0)"

text \<open>The code point of a well-formed UTF-8 sequence of two to four octets whose first
  octet announces that length: continuation octets, no overlong form, no surrogate,
  nothing above U+10FFFF.\<close>

fun utf8_code_point :: "nat list \<Rightarrow> nat option" where
  "utf8_code_point [b0, b1] =
     (let cp = (b0 - 0xC0) * 0x40 + (b1 - 0x80)
      in if continuation b1 \<and> 0x80 \<le> cp then Some cp else None)"
| "utf8_code_point [b0, b1, b2] =
     (let cp = (b0 - 0xE0) * 0x1000 + (b1 - 0x80) * 0x40 + (b2 - 0x80)
      in if continuation b1 \<and> continuation b2 \<and> 0x800 \<le> cp
            \<and> (cp < 0xD800 \<or> 0xDFFF < cp)
         then Some cp else None)"
| "utf8_code_point [b0, b1, b2, b3] =
     (let cp = (b0 - 0xF0) * 0x40000 + (b1 - 0x80) * 0x1000 + (b2 - 0x80) * 0x40 + (b3 - 0x80)
      in if continuation b1 \<and> continuation b2 \<and> continuation b3 \<and> 0x10000 \<le> cp
            \<and> cp \<le> 0x10FFFF
         then Some cp else None)"
| "utf8_code_point _ = None"

definition utf16_encode :: "nat \<Rightarrow> jsstring" where
  "utf16_encode cp =
     (if cp < 0x10000 then [of_nat cp]
      else [of_nat (0xD800 + (cp - 0x10000) div 0x400),
            of_nat (0xDC00 + (cp - 0x10000) mod 0x400)])"

text \<open>The Decode operation with an empty set of preserved escapes. \<open>pending\<close> is the
  number of continuation octets still expected and \<open>octets\<close> those read so far of the
  current sequence. \<open>None\<close> stands for the URIError that is thrown.\<close>

fun Decode :: "nat \<Rightarrow> nat list \<Rightarrow> jsstring \<Rightarrow> jsstring option" where
  "Decode pending octets [] = (if pending = 0 then Some [] else None)"
| "Decode pending octets (c # cs) =
     (if c \<noteq> 0x25 then
        (if pending = 0 then map_option ((#) c) (Decode 0 [] cs) else None)
      else
        (case cs of
           a # b # rest \<Rightarrow>
             (case hex_octet a b of
                None \<Rightarrow> None
              | Some B \<Rightarrow>
                  if pending = 0 then
                    (if leading_ones B = 0 then map_option ((#) (of_nat B)) (Decode 0 [] rest)
                     else if leading_ones B = 1 \<or> 4 < leading_ones B then None
                     else Decode (leading_ones B - 1) [B] rest)
                  else if pending = 1 then
                    (case utf8_code_point (octets @ [B]) of
                       None \<Rightarrow> None
                     | Some cp \<Rightarrow> map_option ((@) (utf16_encode cp)) (Decode 0 [] rest))
                  else Decode (pending - 1) (octets @ [B]) rest)
         | _ \<Rightarrow> None))"

definition decodeURIComponent :: "jsstring \<Rightarrow> jsstring option" where
  "decodeURIComponent s = Decode 0 [] s"

subsection \<open>\<open>encodeURI\<close>\<close>

text \<open>The code units \<open>encodeURI\<close> leaves alone: letters, digits, the marks
  \<^verbatim>\<open>-_.!~*'()\<close> and the reserved \<^verbatim>\<open>;/?:@&=+$,#\<close>.\<close>

definition uri_unescaped :: "code_unit \<Rightarrow> bool" where
  "uri_unescaped c =
     ((0x41 \<le> c \<and> c \<le> 0x5A) \<or> (0x61 \<le> c \<and> c \<le> 0x7A) \<or> (0x30 \<le> c \<and> c \<le> 0x39)
      \<or> c = 0x27 \<or> c \<in> set (js ''-_.!~*()'') \<or> c \<in> set (js '';/?:@&=+$,#''))"

definition utf8_encode :: "nat \<Rightarrow> nat list" where
  "utf8_encode cp =
     (if cp < 0x80 then [cp]
      else if cp < 0x800 then [0xC0 + cp div 0x40, 0x80 + cp mod 0x40]
      else if cp < 0x10000 then
        [0xE0 + cp div 0x1000, 0x80 + (cp div 0x40) mod 0x40, 0x80 + cp mod 0x40]
      else
        [0xF0 + cp div 0x40000, 0x80 + (cp div 0x1000) mod 0x40,
         0x80 + (cp div 0x40) mod 0x40, 0x80 + cp mod 0x40])"

definition hex_digit :: "nat \<Rightarrow> code_unit" where
  "hex_digit n = (if n < 10 then of_nat (0x30 + n) else of_nat (0x41 + (n - 10)))"

definition percent_escape :: "nat \<Rightarrow> jsstring" where
  "percent_escape b = [0x25, hex_digit (b div 16), hex_digit (b mod 16)]"

text \<open>The Encode operation; a lone surrogate throws URIError (\<open>None\<close>).\<close>

fun Encode :: "jsstring \<Rightarrow> jsstring option" where
  "Encode [] = Some []"
| "Encode (c # cs) =
     (if uri_unescaped c then map_option ((#) c) (Encode cs)
      else if 0xDC00 \<le> c \<and> c \<le> 0xDFFF then None
      else if 0xD800 \<le> c \<and> c \<le> 0xDBFF then
        (case cs of
           [] \<Rightarrow> None
         | d # rest \<Rightarrow>
             if 0xDC00 \<le> d \<and> d \<le> 0xDFFF then
               map_option
                 ((@) (concat (map percent_escape
                    (utf8_encode (0x10000 + (unat c - 0xD800) * 0x400 + (unat d - 0xDC00))))))
                 (Encode rest)
             else None)
      else map_option ((@) (concat (map percent_escape (utf8_encode (unat c))))) (Encode cs))"

definition encodeURI :: "jsstring \<Rightarrow> jsstring option" where
  "encodeURI s = Encode s"


section \<open>Citations\<close>

text \<open>The interface \<open>Citation\<close>. Optional fields are options; the numeric
  \<open>relevance_score\<close>, which no function below reads, is left out.\<close>

record citation =
  url :: jsstring
  title :: jsstring
  description :: "jsstring option"
  content_snippet :: "jsstring option"
  domain :: "jsstring option"
  accessed_at :: "jsstring option"
  source_type :: "jsstring option"

subsection \<open>\<open>citationMap\<close> of the \<open>Markdown\<close> component\<close>

text \<open>The body of the \<^verbatim>\<open>forEach\<close> callback for the citation \<open>c\<close> at position \<open>index\<close>:
  three calls of \<^verbatim>\<open>map.set\<close>, each of which overwrites the key's entry. A \<open>decodeURIComponent\<close>
  or \<open>encodeURI\<close> that throws is caught and sets nothing.\<close>

definition citationMap_set :: "(jsstring \<rightharpoonup> nat) \<Rightarrow> citation \<Rightarrow> nat \<Rightarrow> (jsstring \<rightharpoonup> nat)" where
  "citationMap_set m c index =
     (if url c = [] then m
      else
        (let m1 = m(url c \<mapsto> index);
             m2 = (case decodeURIComponent (url c) of
                     None \<Rightarrow> m1
                   | Some decoded \<Rightarrow> if decoded \<noteq> url c then m1(decoded \<mapsto> index) else m1);
             m3 = (case encodeURI (url c) of
                     None \<Rightarrow> m2
                   | Some encoded \<Rightarrow> if encoded \<noteq> url c then m2(encoded \<mapsto> index) else m2)
         in m3))"

fun citationMap_forEach ::
  "nat \<Rightarrow> citation list \<Rightarrow> (jsstring \<rightharpoonup> nat) \<Rightarrow> (jsstring \<rightharpoonup> nat)" where
  "citationMap_forEach index [] m = m"
| "citationMap_forEach index (c # cs) m = citationMap_forEach (Suc index) cs (citationMap_set m c index)"

definition citationMap :: "citation list \<Rightarrow> (jsstring \<rightharpoonup> nat)" where
  "citationMap citations = citationMap_forEach 0 citations Map.empty"

subsection \<open>The link renderer \<open>components.a\<close>\<close>

definition strip_prefix :: "jsstring \<Rightarrow> jsstring \<Rightarrow> jsstring option" where
  "strip_prefix p s = (if startsWith s p then Some (slice_from s (length p)) else None)"

text \<open>\<^verbatim>\<open>\d+$\<close>: one or more decimal digits up to the end of the string.\<close>

definition digits :: "jsstring \<Rightarrow> bool" where
  "digits ds = (ds \<noteq> [] \<and> list_all is_digit ds)"

text \<open>\<^verbatim>\<open>hrefStr.match(/^#citation-target-(\d+)$/)\<close>: the captured digits, or \<open>None\<close> for
  \<open>null\<close>.\<close>

definition targetMatch :: "jsstring \<Rightarrow> jsstring option" where
  "targetMatch hrefStr =
     (case strip_prefix (js ''#citation-target-'') hrefStr of
        None \<Rightarrow> None
      | Some ds \<Rightarrow> if digits ds then Some ds else None)"

text \<open>\<^verbatim>\<open>hrefStr.match(/^#(?:ref-?)?(\d+)$/)\<close>: after the hash the optional group is tried
  as \<open>ref-\<close>, then as \<open>ref\<close>, then skipped (the order in which the greedy optionals
  backtrack); the first reading that leaves digits only gives the capture.\<close>

definition linkMatch :: "jsstring \<Rightarrow> jsstring option" where
  "linkMatch hrefStr =
     (case strip_prefix (js ''#'') hrefStr of
        None \<Rightarrow> None
      | Some r \<Rightarrow>
          List.find digits
            (List.map_filter (\<lambda>p. strip_prefix p r) [js ''ref-'', js ''ref'', js '''']))"

text \<open>\<^verbatim>\<open>/^\s*(?:\[\d+\]|\^?\d+\^?)\s*$/.test(childrenText)\<close>. Neither alternative can begin
  or end with white space, so the two \<^verbatim>\<open>\s*\<close> take all the white space at either end and
  the alternatives are tried on what is left.\<close>

definition bracketed :: "jsstring \<Rightarrow> bool" where
  "bracketed u =
     (case u of
        [] \<Rightarrow> False
      | c # r \<Rightarrow> c = 0x5B \<and> r \<noteq> [] \<and> last r = 0x5D \<and> digits (butlast r))"

definition careted :: "jsstring \<Rightarrow> bool" where
  "careted u =
     (let v = (case u of [] \<Rightarrow> [] | c # r \<Rightarrow> if c = 0x5E then r else c # r);
          w = (if v \<noteq> [] \<and> last v = 0x5E then butlast v else v)
      in digits w)"

definition inlineCitationPattern :: "jsstring \<Rightarrow> bool" where
  "inlineCitationPattern s =
     (let core = rev (dropWhile is_space (rev (dropWhile is_space s)))
      in bracketed core \<or> careted core)"

text \<open>The children of a link: a single node or an array of nodes, each a string or an
  element (markup inside the label), which is given here with the text it renders.
  \<^verbatim>\<open>String\<close> and \<^verbatim>\<open>join\<close> turn an element object into \<^verbatim>\<open>[object Object]\<close>, whatever it
  renders.\<close>

datatype react_node = TextNode jsstring | ElementNode jsstring

datatype react_children = Single react_node | Many "react_node list"

definition node_string :: "react_node \<Rightarrow> jsstring" where
  "node_string n = (case n of TextNode s \<Rightarrow> s | ElementNode t \<Rightarrow> js ''[object Object]'')"

definition childrenText :: "react_children \<Rightarrow> jsstring" where
  "childrenText children =
     (case children of
        Many ns \<Rightarrow> concat (map node_string ns)
      | Single n \<Rightarrow> node_string n)"

text \<open>What the renderer returns:
  \<^item> \<open>TargetSpan i l\<close>: a bold \<^verbatim>\<open>span\<close> with id \<open>i\<close> and label \<open>l\<close>, not a link;
  \<^item> \<open>MarkerAnchor h t\<close>: an in-page anchor with href \<open>h\<close> whose click handler scrolls to
    the element with id \<open>t\<close>;
  \<^item> \<open>CitationLinkElement h cs i\<close>: the component \<open>CitationLink\<close> with href \<open>h\<close>, the
    citations \<open>cs\<close> and the optional id \<open>i\<close>;
  \<^item> \<open>PlainLink h\<close>: the component \<open>Link\<close> with the href as it was passed.\<close>

datatype rendered =
    TargetSpan jsstring jsstring
  | MarkerAnchor jsstring jsstring
  | CitationLinkElement jsstring "citation list" "jsstring option"
  | PlainLink "jsstring option"

text \<open>\<open>citations\<close> is the prop after its default \<^verbatim>\<open>[]\<close>; \<open>href\<close> may be undefined
  (\<open>None\<close>).\<close>

definition Markdown_a :: "citation list \<Rightarrow> jsstring option \<Rightarrow> react_children \<Rightarrow> rendered" where
  "Markdown_a citations href children =
     (let hrefStr = (case href of None \<Rightarrow> [] | Some h \<Rightarrow> h) in
      case targetMatch hrefStr of
        Some index \<Rightarrow> TargetSpan (js ''ref-'' @ index) (js ''['' @ index @ js '']'')
      | None \<Rightarrow>
          (case linkMatch hrefStr of
             Some n \<Rightarrow> MarkerAnchor hrefStr (js ''ref-'' @ n)
           | None \<Rightarrow>
               if 0 < length citations then
                 (case citationMap citations hrefStr of
                    Some citationIndex \<Rightarrow>
                      (let isInline = inlineCitationPattern (childrenText children)
                       in CitationLinkElement hrefStr citations
                            (if \<not> isInline then Some (js ''ref-'' @ decimal (citationIndex + 1))
                             else None))
                  | None \<Rightarrow> CitationLinkElement hrefStr citations None)
               else PlainLink href))"

text \<open>The click handler of the in-page anchor, run on a document given by the ids of its
  elements: \<^verbatim>\<open>preventDefault\<close> is always called, and the element found by
  \<^verbatim>\<open>getElementById\<close>, if any, is scrolled into view smoothly. The renderer attaches an
  \<^verbatim>\<open>onClick\<close> of its own to that anchor only (\<open>None\<close> for the other renderings).\<close>

record click_outcome =
  defaultPrevented :: bool
  smoothScrolledTo :: "jsstring option"

definition marker_onClick :: "jsstring \<Rightarrow> jsstring list \<Rightarrow> click_outcome" where
  "marker_onClick targetId document =
     \<lparr>defaultPrevented = True,
      smoothScrolledTo = (if targetId \<in> set document then Some targetId else None)\<rparr>"

definition onClick :: "rendered \<Rightarrow> jsstring list \<Rightarrow> click_outcome option" where
  "onClick r document =
     (case r of MarkerAnchor h targetId \<Rightarrow> Some (marker_onClick targetId document) | _ \<Rightarrow> None)"

subsection \<open>\<open>CitationLink\<close>: the citation of an href\<close>

text \<open>\<^verbatim>\<open>xs.findIndex(p)\<close>: the first position whose element satisfies \<open>p\<close>, or \<open>-1\<close>.\<close>

fun findIndex :: "('a \<Rightarrow> bool) \<Rightarrow> 'a list \<Rightarrow> int" where
  "findIndex p [] = - 1"
| "findIndex p (x # xs) =
     (if p x then 0 else (let i = findIndex p xs in if i = - 1 then - 1 else i + 1))"

definition normalizeUrl :: "jsstring \<Rightarrow> jsstring" where
  "normalizeUrl u = (case decodeURIComponent u of Some decoded \<Rightarrow> trim decoded | None \<Rightarrow> trim u)"

text \<open>The memoised pair \<open>(citation, index)\<close>.\<close>

definition CitationLink_match :: "jsstring \<Rightarrow> citation list \<Rightarrow> citation option \<times> int" where
  "CitationLink_match href citations =
     (if href = [] then (None, - 1)
      else
        (let exactIndex = findIndex (\<lambda>c. url c = href) citations;
             matchIndex =
               (if exactIndex = - 1
                then findIndex (\<lambda>c. normalizeUrl (url c) = normalizeUrl href) citations
                else exactIndex);
             match = (if matchIndex \<noteq> - 1 then Some (citations ! nat matchIndex) else None)
         in (match, matchIndex)))"

subsection \<open>\<open>CitationCard\<close>: the access date\<close>

text \<open>Which strings the host parses as dates, and how it prints a date for the locale, are
  parameters: \<open>parse\<close> gives the time value of a string (\<open>None\<close> when it cannot be parsed)
  and \<open>format\<close> the localised text of a time value. The constructor \<^verbatim>\<open>new Date(s)\<close> does
  not throw on a string it cannot parse: it returns a date whose time value is NaN, and
  \<^verbatim>\<open>toLocaleDateString\<close> of such a date returns the text \<^verbatim>\<open>Invalid Date\<close>.\<close>

datatype js_date = InvalidDate | ValidDate int

datatype js_error = RangeError

definition new_Date :: "(jsstring \<Rightarrow> int option) \<Rightarrow> jsstring \<Rightarrow> js_error + js_date" where
  "new_Date parse s = Inr (case parse s of None \<Rightarrow> InvalidDate | Some t \<Rightarrow> ValidDate t)"

definition toLocaleDateString :: "(int \<Rightarrow> jsstring) \<Rightarrow> js_date \<Rightarrow> js_error + jsstring" where
  "toLocaleDateString format d =
     Inr (case d of InvalidDate \<Rightarrow> js ''Invalid Date'' | ValidDate t \<Rightarrow> format t)"

text \<open>\<open>formattedDate\<close>: the \<^verbatim>\<open>try\<close> block and its \<^verbatim>\<open>catch\<close>.\<close>

definition formattedDate ::
  "(jsstring \<Rightarrow> int option) \<Rightarrow> (int \<Rightarrow> jsstring) \<Rightarrow> jsstring option \<Rightarrow> jsstring option" where
  "formattedDate parse format accessed =
     (case accessed of
        None \<Rightarrow> None
      | Some a \<Rightarrow>
          if a = [] then None
          else
            (case new_Date parse a of
               Inl e \<Rightarrow> Some (slice_str a 0 10)
             | Inr date \<Rightarrow>
                 (case toLocaleDateString format date of
                    Inl e \<Rightarrow> Some (slice_str a 0 10)
                  | Inr text \<Rightarrow> Some text)))"


section \<open>Notions used in the statements\<close>

text \<open>A pattern on which the inner loop makes progress: its prefix is not empty and
  \<open>prefixLen\<close> is positive. All three patterns of the source are of that kind.\<close>

definition well_formed :: "fence \<Rightarrow> bool" where
  "well_formed f = (prefix f \<noteq> [] \<and> 0 < prefixLen f)"

text \<open>What a run of the inner loop (or of a whole sweep) from \<open>(result, changed)\<close> to
  \<open>(r, c)\<close> guarantees: the flag is never reset, a run that leaves it false left the
  string alone, a run that raises it made the string strictly shorter, and the string
  never grows.\<close>

definition scan_post :: "jsstring \<Rightarrow> bool \<Rightarrow> jsstring \<Rightarrow> bool \<Rightarrow> bool" where
  "scan_post result changed r c =
     ((c \<or> \<not> changed) \<and> (c \<or> r = result) \<and> (changed \<or> \<not> c \<or> length r < length result)
      \<and> length r \<le> length result)"

text \<open>One round of the outer loop as a function on the working string.\<close>

definition sweep_round :: "jsstring \<Rightarrow> jsstring" where
  "sweep_round s = (case sweep patternsToRemove s False of None \<Rightarrow> s | Some (r, c) \<Rightarrow> r)"

text \<open>A citation that carries a url and a title only.\<close>

definition cite :: "string \<Rightarrow> string \<Rightarrow> citation" where
  "cite u t =
     \<lparr>url = js u, title = js t, description = None, content_snippet = None, domain = None,
      accessed_at = None, source_type = None\<rparr>"

text \<open>\<open>i\<close> is the smallest index of \<open>xs\<close> whose element satisfies \<open>p\<close>.\<close>

definition smallest_index :: "('a \<Rightarrow> bool) \<Rightarrow> 'a list \<Rightarrow> nat \<Rightarrow> bool" where
  "smallest_index p xs i = (i < length xs \<and> p (xs ! i) \<and> list_all (\<lambda>x. \<not> p x) (take i xs))"







section \<open>Properties of \<open>dropMarkdownQuote\<close>\<close>

lemma find_sub_Some:
  "find_sub p xs = Some i \<Longrightarrow> i + length p \<le> length xs \<and> take (length p) (drop i xs) = p"
proof (induction xs arbitrary: i)
  case Nil
  then show ?case by (simp split: if_splits)
next
  case (Cons x xs)
  show ?case
  proof (cases "take (length p) (x # xs) = p")
    case True
    with Cons.prems have "i = 0" by simp
    moreover have "length p \<le> length (x # xs)"
    proof -
      have "length (take (length p) (x # xs)) = length p" using True by simp
      then show ?thesis by (simp del: take_Suc_Cons)
    qed
    ultimately show ?thesis using True by simp
  next
    case False
    with Cons.prems obtain j where j: "find_sub p xs = Some j" "i = Suc j"
      by auto
    from Cons.IH [OF j(1)] j(2) show ?thesis by simp
  qed
qed

lemma indexOf_Some:
  assumes "indexOf s p from = Some i"
  shows "min from (length s) \<le> i" and "i + length p \<le> length s"
    and "take (length p) (drop i s) = p"
proof -
  let ?k = "min from (length s)"
  from assms obtain j where j: "find_sub p (drop ?k s) = Some j" "i = ?k + j"
    by (auto simp: indexOf_def Let_def)
  from find_sub_Some [OF j(1)]
  have a: "j + length p \<le> length s - ?k" and b: "take (length p) (drop j (drop ?k s)) = p"
    by simp_all
  show "?k \<le> i" using j(2) by simp
  show "i + length p \<le> length s" using a j(2) by simp
  show "take (length p) (drop i s) = p" using b j(2) by (simp add: add.commute)
qed

text \<open>The inner loop returns on every state. The measure is the length of the string
  plus the distance of \<open>startIndex\<close> from its end: a removal shortens the string and does
  not move \<open>startIndex\<close> backwards, a skip moves \<open>startIndex\<close> forwards.\<close>

lemma scan_returns:
  assumes wf: "well_formed f"
  shows "\<exists>r c. scan f result changed start = Some (r, c) \<and> scan_post result changed r c"
proof (induction "length result + (length result - start)" arbitrary: result changed start
    rule: less_induct)
  case less
  show ?case
  proof (cases "indexOf result (prefix f) start")
    case None
    then show ?thesis
      by (subst scan.simps) (simp add: scan_post_def)
  next
    case (Some p)
    note ip = indexOf_Some [OF Some]
    from wf have pl: "0 < length (prefix f)" "0 < prefixLen f"
      by (simp_all add: well_formed_def)
    from ip(2) pl have p_lt: "p < length result" by (cases "prefix f") auto
    with ip(1) have start_le: "start \<le> p" by (simp add: min_def split: if_splits)
    show ?thesis
    proof (cases "indexOf result (suffix f) (p + prefixLen f)")
      case None
      have "length result + (length result - (p + prefixLen f))
              < length result + (length result - start)"
        using p_lt start_le pl by simp
      from less [OF this, of changed] obtain r c where
        "scan f result changed (p + prefixLen f) = Some (r, c)" "scan_post result changed r c"
        by blast
      with Some None show ?thesis
        by (subst scan.simps) simp
    next
      case (Some e)
      note ie = indexOf_Some [OF Some]
      obtain result' start' where rp: "remove_pair f result p e = (result', start')"
        by (cases "remove_pair f result p e")
      from rp have result': "result' = slice_str result 0 p
          @ slice_str result (p + prefixLen f) e @ slice_from result (e + length (suffix f))"
        and start': "start' = length (slice_str result 0 p)
          + length (slice_str result (p + prefixLen f) e)"
        by (simp_all add: remove_pair_def Let_def)
      have len: "length result' < length result"
        using ie(1,2) p_lt pl
        by (auto simp: result' slice_str_def slice_from_def min_def split: if_splits)
      then have "length result' + (length result' - start')
                   < length result + (length result - start)"
        using start_le p_lt by (simp add: start' slice_str_def)
      from less [OF this, of True] obtain r c where
        rc: "scan f result' True start' = Some (r, c)" "scan_post result' True r c"
        by blast
      from rc(2) len have "scan_post result changed r c"
        by (auto simp: scan_post_def)
      with rc(1) rp \<open>indexOf result (prefix f) start = Some p\<close> Some show ?thesis
        by (subst scan.simps) simp
    qed
  qed
qed

text \<open>A removal for one of the three patterns takes away exactly the prefix and the
  suffix.\<close>

lemma remove_pair_length:
  assumes f: "f \<in> set patternsToRemove"
    and p: "indexOf result (prefix f) startIndex = Some p"
    and e: "indexOf result (suffix f) (p + prefixLen f) = Some endIndex"
  shows "length (fst (remove_pair f result p endIndex)) + prefixLen f + length (suffix f)
           = length result"
proof -
  from f have pl: "prefixLen f = length (prefix f)"
    by (auto simp: patternsToRemove_def js_def)
  note ip = indexOf_Some [OF p] and ie = indexOf_Some [OF e]
  from ip(2) pl have "p + prefixLen f \<le> length result" by simp
  with ie(1) have "p + prefixLen f \<le> endIndex" by simp
  with ie(2) show ?thesis
    by (simp add: remove_pair_def Let_def slice_str_def slice_from_def)
qed

lemma scan_post_trans:
  "scan_post result changed r1 c1 \<Longrightarrow> scan_post r1 c1 r c \<Longrightarrow> scan_post result changed r c"
  by (auto simp: scan_post_def)

lemma sweep_returns:
  assumes "list_all well_formed fs"
  shows "\<exists>r c. sweep fs result changed = Some (r, c) \<and> scan_post result changed r c"
  using assms
proof (induction fs arbitrary: result changed)
  case Nil
  then show ?case by (simp add: scan_post_def)
next
  case (Cons f fs)
  then have "well_formed f" and fs: "list_all well_formed fs" by simp_all
  from scan_returns [OF this(1)] obtain r1 c1 where
    1: "scan f result changed 0 = Some (r1, c1)" "scan_post result changed r1 c1"
    by blast
  from Cons.IH [OF fs] obtain r c where
    2: "sweep fs r1 c1 = Some (r, c)" "scan_post r1 c1 r c"
    by blast
  from 1 2 show ?case
    by (auto intro: scan_post_trans)
qed

lemma js_fences:
  "js ''```markdown\<newline>'' = [96, 96, 96, 109, 97, 114, 107, 100, 111, 119, 110, 10]"
  "js ''```text\<newline>'' = [96, 96, 96, 116, 101, 120, 116, 10]"
  "js ''```\<newline>'' = [96, 96, 96, 10]"
  "js ''\<newline>```'' = [10, 96, 96, 96]"
  by (simp_all add: js_def)

lemma patterns_well_formed: "list_all well_formed patternsToRemove"
  by (simp add: patternsToRemove_def well_formed_def js_fences)

text \<open>One round of the outer loop either shortens the string and raises the flag, or
  changes nothing.\<close>

lemma sweep_patterns:
  "\<exists>r c. sweep patternsToRemove s False = Some (r, c)
     \<and> (if c then length r < length s else r = s)"
proof -
  from sweep_returns [OF patterns_well_formed, of s False] obtain r c where
    "sweep patternsToRemove s False = Some (r, c)" "scan_post s False r c"
    by blast
  then show ?thesis by (auto simp: scan_post_def)
qed

lemma sweep_loop_returns:
  "\<exists>r. sweep_loop s = Some r \<and> sweep patternsToRemove r False = Some (r, False)"
proof (induction "length s" arbitrary: s rule: less_induct)
  case less
  from sweep_patterns [of s] obtain r c where
    rc: "sweep patternsToRemove s False = Some (r, c)" "if c then length r < length s else r = s"
    by blast
  show ?case
  proof (cases c)
    case True
    with rc(2) have "length r < length s" by simp
    from less [OF this] obtain r' where
      "sweep_loop r = Some r'" "sweep patternsToRemove r' False = Some (r', False)"
      by blast
    with rc(1) True show ?thesis
      by (subst sweep_loop.simps) simp
  next
    case False
    with rc show ?thesis
      by (subst sweep_loop.simps) simp
  qed
qed

lemma sweep_loop_fixpoint:
  assumes "sweep patternsToRemove r False = Some (r, False)"
  shows "sweep_loop r = Some r"
  using assms by (subst sweep_loop.simps) simp

text \<open>The outer loop returns after at most as many changing rounds as the string is
  long, and what it returns is a fixpoint of the round.\<close>

lemma sweep_loop_rounds:
  "\<exists>n\<le>length s. sweep_loop s = Some ((sweep_round ^^ n) s)
     \<and> sweep patternsToRemove ((sweep_round ^^ n) s) False = Some ((sweep_round ^^ n) s, False)"
proof (induction "length s" arbitrary: s rule: less_induct)
  case less
  from sweep_patterns [of s] obtain r c where
    rc: "sweep patternsToRemove s False = Some (r, c)" "if c then length r < length s else r = s"
    by blast
  then have round: "sweep_round s = r" by (simp add: sweep_round_def)
  show ?case
  proof (cases c)
    case True
    with rc(2) have l: "length r < length s" by simp
    from less [OF this] obtain n where n: "n \<le> length r"
      "sweep_loop r = Some ((sweep_round ^^ n) r)"
      "sweep patternsToRemove ((sweep_round ^^ n) r) False = Some ((sweep_round ^^ n) r, False)"
      by blast
    have f: "(sweep_round ^^ Suc n) s = (sweep_round ^^ n) r"
      by (simp add: funpow_swap1 round)
    have "sweep_loop s = Some ((sweep_round ^^ n) r)"
      using rc(1) True n(2) by (subst sweep_loop.simps) simp
    with n(1,3) l f have "Suc n \<le> length s \<and> sweep_loop s = Some ((sweep_round ^^ Suc n) s)
      \<and> sweep patternsToRemove ((sweep_round ^^ Suc n) s) False
            = Some ((sweep_round ^^ Suc n) s, False)"
      by (simp del: funpow.simps)
    then show ?thesis by blast
  next
    case False
    with rc have "sweep_loop s = Some s" "sweep patternsToRemove s False = Some (s, False)"
      by (simp_all add: sweep_loop_fixpoint)
    then have "0 \<le> length s \<and> sweep_loop s = Some ((sweep_round ^^ 0) s)
      \<and> sweep patternsToRemove ((sweep_round ^^ 0) s) False = Some ((sweep_round ^^ 0) s, False)"
      by simp
    then show ?thesis by blast
  qed
qed

text \<open>
  Claim C9. \<open>dropMarkdownQuote\<close> returns on every argument: undefined, null and every
  string; a string it returns is a fixpoint of the sweep (a further round reports no
  change). The outer loop, started on any string \<open>s\<close>, returns after \<open>n\<close> changing
  rounds for some \<open>n\<close> not above the length of \<open>s\<close>, and its result is that fixpoint.
  Every round returns, and a round that reports a change has made the working string
  strictly shorter, while a round that reports none has left it as it was. A single
  removal, of a pair found for one of the three patterns, shortens the working string
  by the length of the prefix and of the suffix.
\<close>

theorem dropMarkdownQuote_terminates:
  "(\<exists>r. dropMarkdownQuote markdown = Some r
        \<and> (case r of Str t \<Rightarrow> sweep patternsToRemove t False = Some (t, False) | _ \<Rightarrow> r = Null))
   \<and> (\<exists>n\<le>length s. sweep_loop s = Some ((sweep_round ^^ n) s)
        \<and> sweep patternsToRemove ((sweep_round ^^ n) s) False
              = Some ((sweep_round ^^ n) s, False))
   \<and> (\<exists>r c. sweep patternsToRemove s False = Some (r, c)
          \<and> (if c then length r < length s else r = s))
   \<and> (f \<in> set patternsToRemove \<and> indexOf result (prefix f) startIndex = Some p
        \<and> indexOf result (suffix f) (p + prefixLen f) = Some endIndex
        \<longrightarrow> length (fst (remove_pair f result p endIndex)) + prefixLen f + length (suffix f)
              = length result)"
proof (intro conjI impI)
  show "\<exists>r. dropMarkdownQuote markdown = Some r
        \<and> (case r of Str t \<Rightarrow> sweep patternsToRemove t False = Some (t, False) | _ \<Rightarrow> r = Null)"
  proof (cases markdown)
    case (Str t)
    show ?thesis
    proof (cases "t = []")
      case True
      with Str show ?thesis by (simp add: dropMarkdownQuote_def)
    next
      case False
      from sweep_loop_returns [of "strip_unterminated patternsToRemove t"]
      obtain r where "sweep_loop (strip_unterminated patternsToRemove t) = Some r"
        "sweep patternsToRemove r False = Some (r, False)" by blast
      with Str False show ?thesis by (simp add: dropMarkdownQuote_def)
    qed
  qed (simp_all add: dropMarkdownQuote_def)
  show "\<exists>n\<le>length s. sweep_loop s = Some ((sweep_round ^^ n) s)
        \<and> sweep patternsToRemove ((sweep_round ^^ n) s) False
              = Some ((sweep_round ^^ n) s, False)"
    by (rule sweep_loop_rounds)
  show "\<exists>r c. sweep patternsToRemove s False = Some (r, c)
          \<and> (if c then length r < length s else r = s)"
    by (rule sweep_patterns)
next
  assume "f \<in> set patternsToRemove \<and> indexOf result (prefix f) startIndex = Some p
        \<and> indexOf result (suffix f) (p + prefixLen f) = Some endIndex"
  then show "length (fst (remove_pair f result p endIndex)) + prefixLen f + length (suffix f)
              = length result"
    by (blast intro: remove_pair_length)
qed

theorem dropMarkdownQuote_terminates_witness:
  "dropMarkdownQuote (Str (js ''```\<newline>foo\<newline>```'')) = Some (Str (js ''foo''))
   \<and> sweep patternsToRemove (js ''foo'') False = Some (js ''foo'', False)
   \<and> remove_pair (patternsToRemove ! 2) (js ''```\<newline>foo\<newline>```'') 0 7 = (js ''foo'', 3)
   \<and> length (js ''foo'') + 4 + 4 = length (js ''```\<newline>foo\<newline>```'')"
proof -
  let ?f = "patternsToRemove ! 2"
  let ?s = "js ''```\<newline>foo\<newline>```''"
  have f: "?f = \<lparr>prefix = js ''```\<newline>'', suffix = js ''\<newline>```'', prefixLen = 4\<rparr>"
    by (simp add: patternsToRemove_def)
  have 1: "dropMarkdownQuote (Str ?s) = Some (Str (js ''foo''))"
    by code_simp
  have 2: "remove_pair ?f ?s 0 7 = (js ''foo'', 3)"
    by (simp add: f remove_pair_def slice_str_def slice_from_def js_def)
  have 3: "?f \<in> set patternsToRemove"
    by (simp add: patternsToRemove_def)
  have 4: "indexOf ?s (prefix ?f) 0 = Some 0"
    by (simp add: f indexOf_def js_def)
  have 5: "indexOf ?s (suffix ?f) (0 + prefixLen ?f) = Some 7"
    by (simp add: f indexOf_def js_def)
  note t = dropMarkdownQuote_terminates [of "Str ?s" "?s" ?f ?s 0 0 7]
  from t [THEN conjunct1] 1 have 6: "sweep patternsToRemove (js ''foo'') False = Some (js ''foo'', False)"
    by simp
  from t [THEN conjunct2, THEN conjunct2, THEN conjunct2] 2 3 4 5
  have "length (js ''foo'') + prefixLen ?f + length (suffix ?f) = length ?s"
    by simp
  then have "length (js ''foo'') + 4 + 4 = length ?s"
    by (simp add: f js_def)
  with 1 2 6 show ?thesis by blast
qed

text \<open>
  Claim C2, as stated, fails: the empty string is falsy, so
  \<^verbatim>\<open>if (!markdown) return null\<close> sends it to \<open>null\<close>, not to the empty string.
\<close>

theorem dropMarkdownQuote_empty_counterexample:
  "dropMarkdownQuote (Str (js '''')) = Some Null
   \<and> dropMarkdownQuote (Str (js '''')) \<noteq> Some (Str (js ''''))"
  by (simp add: dropMarkdownQuote_def js_def)

text \<open>
  Claim C2, amended. \<open>dropMarkdownQuote\<close> maps undefined, null and also the empty string
  to \<open>null\<close>. The empty string comes back only at the call site, where
  \<^verbatim>\<open>?? ""\<close> replaces the \<open>null\<close>.
\<close>

theorem dropMarkdownQuote_falsy:
  "dropMarkdownQuote Undefined = Some Null \<and> dropMarkdownQuote Null = Some Null
   \<and> dropMarkdownQuote (Str (js '''')) = Some Null
   \<and> map_option or_empty (dropMarkdownQuote (Str (js ''''))) = Some (js '''')"
  by (simp add: dropMarkdownQuote_def js_def or_empty_def)

text \<open>
  Claim C3, as stated, fails. The first loop cuts an unterminated opening fence once
  only, so the output can begin with another one: the input of two bare fences followed
  by \<^verbatim>\<open>foo\<close> is normalized to one bare fence followed by \<^verbatim>\<open>foo\<close>, and that output is
  normalized to \<^verbatim>\<open>foo\<close>.
\<close>

theorem dropMarkdownQuote_idempotent_counterexample:
  "dropMarkdownQuote (Str (js ''```\<newline>```\<newline>foo'')) = Some (Str (js ''```\<newline>foo''))
   \<and> dropMarkdownQuote (Str (js ''```\<newline>foo'')) = Some (Str (js ''foo''))
   \<and> dropMarkdownQuote (Str (js ''```\<newline>foo'')) \<noteq> Some (Str (js ''```\<newline>foo''))"
  by code_simp

text \<open>
  Claim C3, amended. Normalizing the output \<open>r\<close> of a normalization returns \<open>r\<close>
  unchanged whenever \<open>r\<close> is not empty and the first loop leaves \<open>r\<close> as it is (\<open>r\<close> does
  not begin with an opening fence that lacks the closing fence at its end).
\<close>

theorem dropMarkdownQuote_idempotent_when_stable:
  assumes "dropMarkdownQuote (Str s) = Some (Str r)"
    and "r \<noteq> []"
    and "strip_unterminated patternsToRemove r = r"
  shows "dropMarkdownQuote (Str r) = Some (Str r)"
proof -
  from assms(1) have "sweep_loop (strip_unterminated patternsToRemove s) = Some r"
    by (auto simp: dropMarkdownQuote_def split: if_splits)
  with sweep_loop_returns [of "strip_unterminated patternsToRemove s"]
  have "sweep patternsToRemove r False = Some (r, False)" by auto
  then have "sweep_loop r = Some r" by (rule sweep_loop_fixpoint)
  with assms(2,3) show ?thesis by (simp add: dropMarkdownQuote_def)
qed

theorem dropMarkdownQuote_idempotent_when_stable_witness:
  "dropMarkdownQuote (Str (js ''```\<newline>foo'')) = Some (Str (js ''foo''))
   \<and> dropMarkdownQuote (Str (js ''foo'')) = Some (Str (js ''foo''))"
proof -
  have 1: "dropMarkdownQuote (Str (js ''```\<newline>foo'')) = Some (Str (js ''foo''))"
    by code_simp
  have 2: "js ''foo'' \<noteq> []" by (simp add: js_def)
  have 3: "strip_unterminated patternsToRemove (js ''foo'') = js ''foo''"
    by code_simp
  from dropMarkdownQuote_idempotent_when_stable [OF 1 2 3] 1 show ?thesis by simp
qed


section \<open>Properties of the link renderer\<close>


lemma strip_prefix_iff: "strip_prefix p s = Some r \<longleftrightarrow> s = p @ r"
proof
  assume "strip_prefix p s = Some r"
  then have "take (length p) s = p" "drop (length p) s = r"
    by (auto simp: strip_prefix_def startsWith_def slice_from_def split: if_splits)
  then show "s = p @ r" by (metis append_take_drop_id)
next
  assume "s = p @ r"
  then show "strip_prefix p s = Some r"
    by (simp add: strip_prefix_def startsWith_def slice_from_def)
qed

lemma strip_prefix_None_iff: "strip_prefix p s = None \<longleftrightarrow> (\<forall>r. s \<noteq> p @ r)"
  by (metis strip_prefix_iff not_Some_eq)

lemma js_literals:
  "js ''#citation-target-'' = [35, 99, 105, 116, 97, 116, 105, 111, 110, 45, 116, 97, 114, 103, 101, 116, 45]"
  "js ''#'' = [35]" "js ''ref-'' = [114, 101, 102, 45]" "js ''ref'' = [114, 101, 102]"
  "js ''#ref'' = [35, 114, 101, 102]" "js ''#ref-'' = [35, 114, 101, 102, 45]"
  "js '''' = []" "js ''['' = [91]" "js '']'' = [93]"
  by (simp_all add: js_def)

lemma digits_Cons: "digits ds \<Longrightarrow> \<exists>d ds'. ds = d # ds' \<and> is_digit d"
  by (cases ds) (auto simp: digits_def)

lemma is_digit_not:
  assumes "is_digit d"
  shows "d \<noteq> 99" "d \<noteq> 114" "d \<noteq> 45" "d \<noteq> 35" "d \<noteq> 91" "d \<noteq> 93" "d \<noteq> 94" "\<not> is_space d"
  using assms by (auto simp: is_digit_def is_space_def word_le_nat_alt)

lemma targetMatch_iff:
  "targetMatch h = Some ds \<longleftrightarrow> h = js ''#citation-target-'' @ ds \<and> digits ds"
proof (cases "strip_prefix (js ''#citation-target-'') h")
  case None
  then have "targetMatch h = None" by (simp add: targetMatch_def)
  moreover from None have "h \<noteq> js ''#citation-target-'' @ ds"
    by (simp add: strip_prefix_None_iff)
  ultimately show ?thesis by simp
next
  case (Some r)
  then have "targetMatch h = (if digits r then Some r else None)"
    by (simp add: targetMatch_def)
  moreover from Some have "h = js ''#citation-target-'' @ r"
    by (simp add: strip_prefix_iff)
  ultimately show ?thesis by auto
qed

lemma set_map_filter: "y \<in> set (List.map_filter f xs) \<longleftrightarrow> (\<exists>x\<in>set xs. f x = Some y)"
  by (induction xs) (auto simp: map_filter_simps split: option.splits)

lemma targetMatch_target: "digits ds \<Longrightarrow> targetMatch (js ''#citation-target-'' @ ds) = Some ds"
  by (simp add: targetMatch_iff)

lemma linkMatch_hash:
  assumes "digits ds"
  shows "linkMatch (js ''#'' @ ds) = Some ds"
proof -
  from digits_Cons [OF assms] obtain d ds' where ds: "ds = d # ds'" "is_digit d" by blast
  have 1: "strip_prefix (js ''#'') (js ''#'' @ ds) = Some ds" by (simp add: strip_prefix_iff)
  have 2: "strip_prefix (js ''ref-'') ds = None" "strip_prefix (js ''ref'') ds = None"
    using ds is_digit_not(2) [OF ds(2)] by (simp_all add: strip_prefix_None_iff js_literals)
  have 3: "strip_prefix (js '''') ds = Some ds" by (simp add: strip_prefix_iff js_literals)
  show ?thesis using assms by (simp add: linkMatch_def 1 2 3 List.map_filter_def)
qed

lemma linkMatch_ref:
  assumes "digits ds"
  shows "linkMatch (js ''#ref'' @ ds) = Some ds"
proof -
  from digits_Cons [OF assms] obtain d ds' where ds: "ds = d # ds'" "is_digit d" by blast
  have 1: "strip_prefix (js ''#'') (js ''#ref'' @ ds) = Some (js ''ref'' @ ds)"
    by (simp add: strip_prefix_iff js_literals)
  have 2: "strip_prefix (js ''ref-'') (js ''ref'' @ ds) = None"
    using ds is_digit_not(3) [OF ds(2)] by (simp add: strip_prefix_None_iff js_literals)
  have 3: "strip_prefix (js ''ref'') (js ''ref'' @ ds) = Some ds" by (simp add: strip_prefix_iff)
  show ?thesis using assms by (simp add: linkMatch_def 1 2 3 List.map_filter_def)
qed

lemma linkMatch_ref_hyphen:
  assumes "digits ds"
  shows "linkMatch (js ''#ref-'' @ ds) = Some ds"
proof -
  have 1: "strip_prefix (js ''#'') (js ''#ref-'' @ ds) = Some (js ''ref-'' @ ds)"
    by (simp add: strip_prefix_iff js_literals)
  have 2: "strip_prefix (js ''ref-'') (js ''ref-'' @ ds) = Some ds" by (simp add: strip_prefix_iff)
  show ?thesis using assms by (simp add: linkMatch_def 1 2 List.map_filter_def)
qed

lemma targetMatch_marker:
  assumes "digits ds" and "pre \<in> set [js ''#'', js ''#ref'', js ''#ref-'']"
  shows "targetMatch (pre @ ds) = None"
proof -
  from digits_Cons [OF assms(1)] obtain d ds' where ds: "ds = d # ds'" "is_digit d" by blast
  have "strip_prefix (js ''#citation-target-'') (pre @ ds) = None"
    using assms(2) ds is_digit_not(1) [OF ds(2)]
    by (auto simp: strip_prefix_None_iff js_literals)
  then show ?thesis by (simp add: targetMatch_def)
qed

lemma linkMatch_marker:
  assumes "digits ds" and "pre \<in> set [js ''#'', js ''#ref'', js ''#ref-'']"
  shows "linkMatch (pre @ ds) = Some ds"
  using assms linkMatch_hash linkMatch_ref linkMatch_ref_hyphen by auto

lemma linkMatch_Some:
  assumes "linkMatch h = Some ds"
  shows "digits ds \<and> h \<in> set [js ''#'' @ ds, js ''#ref'' @ ds, js ''#ref-'' @ ds]"
proof -
  from assms obtain r where r: "h = js ''#'' @ r"
    and f: "List.find digits (List.map_filter (\<lambda>p. strip_prefix p r) [js ''ref-'', js ''ref'', js '''']) = Some ds"
    by (auto simp: linkMatch_def strip_prefix_iff split: option.splits)
  from f have d: "digits ds"
    and m: "ds \<in> set (List.map_filter (\<lambda>p. strip_prefix p r) [js ''ref-'', js ''ref'', js ''''])"
    by (auto simp: find_Some_iff in_set_conv_nth)
  from m [unfolded set_map_filter] obtain p where
    "p \<in> set [js ''ref-'', js ''ref'', js '''']" "strip_prefix p r = Some ds"
    by blast
  then have "r = js ''ref-'' @ ds \<or> r = js ''ref'' @ ds \<or> r = ds"
    by (auto simp: strip_prefix_iff js_literals)
  with r d show ?thesis by (auto simp: js_literals)
qed

lemma targetMatch_Nil: "targetMatch [] = None"
  by (simp add: targetMatch_def strip_prefix_def startsWith_def js_literals)

lemma linkMatch_Nil: "linkMatch [] = None"
  by (simp add: linkMatch_def strip_prefix_def startsWith_def js_literals)

text \<open>
  Claim C6. An href that consists of the hash, the text \<^verbatim>\<open>citation-target-\<close> and one or
  more decimal digits is rendered as the reference target: a bold label \<^verbatim>\<open>[digits]\<close> in
  a \<^verbatim>\<open>span\<close> with id \<^verbatim>\<open>ref-digits\<close>, which is not a link. This holds for every citation
  list, empty or not, and for every link text: no other rule is looked at before this
  one.
\<close>

theorem target_anchor_first:
  assumes "digits ds"
  shows "Markdown_a citations (Some (js ''#citation-target-'' @ ds)) children
           = TargetSpan (js ''ref-'' @ ds) (js ''['' @ ds @ js '']'')"
  using assms by (simp add: Markdown_a_def targetMatch_target)

theorem target_anchor_first_witness:
  "Markdown_a [] (Some (js ''#citation-target-3'')) (Single (TextNode (js ''[3]'')))
     = TargetSpan (js ''ref-3'') (js ''[3]'')
   \<and> Markdown_a [cite ''#citation-target-3'' ''Site''] (Some (js ''#citation-target-3''))
       (Single (TextNode (js ''Site'')))
     = TargetSpan (js ''ref-3'') (js ''[3]'')"
proof -
  have d: "digits (js ''3'')"
    by (simp add: digits_def is_digit_def js_def)
  have e: "js ''#citation-target-3'' = js ''#citation-target-'' @ js ''3''"
    "js ''ref-3'' = js ''ref-'' @ js ''3''" "js ''[3]'' = js ''['' @ js ''3'' @ js '']''"
    by (simp_all add: js_def)
  show ?thesis
    unfolding e using target_anchor_first [OF d] by simp
qed

text \<open>
  Claim C5, as stated, fails: the two in-page anchor rules come before the citation
  list is looked at, so with an empty list the href \<^verbatim>\<open>#citation-target-3\<close> is still the
  reference target and \<^verbatim>\<open>#ref-3\<close> still the in-page anchor.
\<close>

theorem empty_citations_counterexample:
  "Markdown_a [] (Some (js ''#citation-target-3'')) (Single (TextNode (js ''[3]'')))
     = TargetSpan (js ''ref-3'') (js ''[3]'')
   \<and> Markdown_a [] (Some (js ''#ref-3'')) (Single (TextNode (js ''[3]'')))
     = MarkerAnchor (js ''#ref-3'') (js ''ref-3'')
   \<and> Markdown_a [] (Some (js ''#citation-target-3'')) (Single (TextNode (js ''[3]'')))
     \<noteq> PlainLink (Some (js ''#citation-target-3''))"
  by (simp add: Markdown_a_def targetMatch_def linkMatch_def strip_prefix_def startsWith_def
      slice_from_def digits_def is_digit_def List.map_filter_def js_def)

text \<open>
  Claim C5, amended. With an empty citation list, every href that matches neither
  in-page anchor pattern (rules 1 and 2) is rendered as the plain link, and so is an
  absent href.
\<close>

theorem empty_citations_plain_link:
  assumes "targetMatch h = None" and "linkMatch h = None"
  shows "Markdown_a [] (Some h) children = PlainLink (Some h)
         \<and> Markdown_a [] None children = PlainLink None"
  using assms by (simp add: Markdown_a_def targetMatch_Nil linkMatch_Nil)

theorem empty_citations_plain_link_witness:
  "Markdown_a [] (Some (js ''https://example.com/a'')) (Single (TextNode (js ''a'')))
     = PlainLink (Some (js ''https://example.com/a''))
   \<and> Markdown_a [] None (Single (TextNode (js ''a''))) = PlainLink None"
proof -
  have 1: "targetMatch (js ''https://example.com/a'') = None"
    by (simp add: targetMatch_def strip_prefix_def startsWith_def js_def)
  have 2: "linkMatch (js ''https://example.com/a'') = None"
    by (simp add: linkMatch_def strip_prefix_def startsWith_def js_def)
  from empty_citations_plain_link [OF 1 2] show ?thesis .
qed

text \<open>
  Claim C8, as stated, fails: it lets the hyphen stand without \<^verbatim>\<open>ref\<close>, but the pattern
  of the source allows the hyphen after \<^verbatim>\<open>ref\<close> only. The href \<^verbatim>\<open>#-1\<close> is a hash, no
  \<^verbatim>\<open>ref\<close>, a hyphen and a digit; it is rendered as a plain link (here with no
  citations), with no click handler that scrolls.
\<close>

theorem marker_anchor_counterexample:
  "Markdown_a [] (Some (js ''#-1'')) (Single (TextNode (js ''1''))) = PlainLink (Some (js ''#-1''))
   \<and> onClick (Markdown_a [] (Some (js ''#-1'')) (Single (TextNode (js ''1'')))) [js ''ref-1'']
       = None"
  by (simp add: Markdown_a_def targetMatch_def linkMatch_def strip_prefix_def startsWith_def
      slice_from_def digits_def is_digit_def List.map_filter_def onClick_def js_def)

text \<open>
  Claim C8, amended. For every href that is a hash, then nothing or \<^verbatim>\<open>ref\<close> or \<^verbatim>\<open>ref-\<close>,
  then one or more decimal digits, whatever the citations and the link text: the link is
  rendered as the in-page anchor, and a click on it always suppresses the default
  navigation and scrolls smoothly to the element with id \<^verbatim>\<open>ref-digits\<close> when the document
  has one; when it has none the click does nothing more (it returns, and nothing is
  navigated to).
\<close>

theorem marker_anchor_click:
  assumes "digits ds" and "pre \<in> set [js ''#'', js ''#ref'', js ''#ref-'']"
  shows "Markdown_a citations (Some (pre @ ds)) children = MarkerAnchor (pre @ ds) (js ''ref-'' @ ds)
         \<and> onClick (Markdown_a citations (Some (pre @ ds)) children) document
             = Some \<lparr>defaultPrevented = True,
                     smoothScrolledTo =
                       (if js ''ref-'' @ ds \<in> set document then Some (js ''ref-'' @ ds) else None)\<rparr>"
proof -
  have "Markdown_a citations (Some (pre @ ds)) children = MarkerAnchor (pre @ ds) (js ''ref-'' @ ds)"
    using targetMatch_marker [OF assms] linkMatch_marker [OF assms]
    by (simp add: Markdown_a_def)
  then show ?thesis by (simp add: onClick_def marker_onClick_def)
qed

theorem marker_anchor_click_witness:
  "Markdown_a [] (Some (js ''#ref-1'')) (Single (TextNode (js ''[1]'')))
     = MarkerAnchor (js ''#ref-1'') (js ''ref-1'')
   \<and> onClick (Markdown_a [] (Some (js ''#ref-1'')) (Single (TextNode (js ''[1]''))))
         [js ''ref-2'', js ''ref-1'']
       = Some \<lparr>defaultPrevented = True, smoothScrolledTo = Some (js ''ref-1'')\<rparr>
   \<and> onClick (Markdown_a [] (Some (js ''#ref-1'')) (Single (TextNode (js ''[1]'')))) []
       = Some \<lparr>defaultPrevented = True, smoothScrolledTo = None\<rparr>"
proof -
  have d: "digits (js ''1'')"
    by (simp add: digits_def is_digit_def js_def)
  have p: "js ''#ref-'' \<in> set [js ''#'', js ''#ref'', js ''#ref-'']"
    by simp
  have e: "js ''#ref-1'' = js ''#ref-'' @ js ''1''" "js ''ref-1'' = js ''ref-'' @ js ''1''"
    by (simp_all add: js_def)
  let ?link = "Markdown_a [] (Some (js ''#ref-'' @ js ''1'')) (Single (TextNode (js ''[1]'')))"
  note found = marker_anchor_click [OF d p, of "[]" "Single (TextNode (js ''[1]''))"
      "[js ''ref-2'', js ''ref-'' @ js ''1'']"]
  note missing = marker_anchor_click [OF d p, of "[]" "Single (TextNode (js ''[1]''))" "[]"]
  have 1: "?link = MarkerAnchor (js ''#ref-'' @ js ''1'') (js ''ref-'' @ js ''1'')"
    by (rule found [THEN conjunct1])
  have 2: "onClick ?link [js ''ref-2'', js ''ref-'' @ js ''1'']
             = Some \<lparr>defaultPrevented = True, smoothScrolledTo = Some (js ''ref-'' @ js ''1'')\<rparr>"
    using found [THEN conjunct2] by simp
  have 3: "onClick ?link [] = Some \<lparr>defaultPrevented = True, smoothScrolledTo = None\<rparr>"
    using missing [THEN conjunct2] by simp
  show ?thesis
    unfolding e using 1 2 3 by blast
qed


subsection \<open>The inline marker pattern\<close>















section \<open>Properties of \<open>citationMap\<close>\<close>

lemmas uri_defs = js_def decodeURIComponent_def encodeURI_def hex_octet_def hex_value_def
  leading_ones_def continuation_def utf16_encode_def uri_unescaped_def utf8_encode_def
  hex_digit_def percent_escape_def

text \<open>
  Claim C1 says that the first writer wins. The code does not do that: every
  \<^verbatim>\<open>map.set\<close> overwrites the entry of an earlier citation. In the list of the claim the
  first url decodes to the second and the second encodes to the first, and after the
  second citation is entered both keys map to index 1. For the href that is literally
  the first citation's url, \<open>CitationLink\<close> takes the first citation (index 0), while the
  renderer takes the id from \<open>citationMap\<close> and labels the link \<^verbatim>\<open>ref-2\<close>. The same
  happens for two citations with one and the same url.
\<close>

theorem citationMap_overwrites_earlier:
  "citationMap [cite ''http://a.com/x%20y'' ''First'', cite ''http://a.com/x y'' ''Second'']
        (js ''http://a.com/x%20y'') = Some 1
   \<and> citationMap [cite ''http://a.com/x%20y'' ''First'', cite ''http://a.com/x y'' ''Second'']
        (js ''http://a.com/x y'') = Some 1
   \<and> CitationLink_match (js ''http://a.com/x%20y'')
        [cite ''http://a.com/x%20y'' ''First'', cite ''http://a.com/x y'' ''Second'']
        = (Some (cite ''http://a.com/x%20y'' ''First''), 0)
   \<and> Markdown_a [cite ''http://a.com/x%20y'' ''First'', cite ''http://a.com/x y'' ''Second'']
        (Some (js ''http://a.com/x%20y'')) (Single (TextNode (js ''First'')))
        = CitationLinkElement (js ''http://a.com/x%20y'')
            [cite ''http://a.com/x%20y'' ''First'', cite ''http://a.com/x y'' ''Second'']
            (Some (js ''ref-2''))
   \<and> citationMap [cite ''http://b.com'' ''First'', cite ''http://b.com'' ''Second'']
        (js ''http://b.com'') = Some 1
   \<and> CitationLink_match (js ''http://b.com'')
        [cite ''http://b.com'' ''First'', cite ''http://b.com'' ''Second'']
        = (Some (cite ''http://b.com'' ''First''), 0)"
  by (simp add: citationMap_def citationMap_set_def cite_def CitationLink_match_def
      normalizeUrl_def trim_def is_space_def Markdown_a_def targetMatch_def linkMatch_def
      strip_prefix_def startsWith_def slice_from_def digits_def is_digit_def
      List.map_filter_def childrenText_def node_string_def inlineCitationPattern_def
      bracketed_def careted_def Let_def uri_defs)

section \<open>Properties of the citation links\<close>







lemma findIndex_ge: "- 1 \<le> findIndex p xs"
  by (induction xs) (auto simp: Let_def)

lemma findIndex_none: "list_all (\<lambda>x. \<not> p x) xs \<Longrightarrow> findIndex p xs = - 1"
  by (induction xs) simp_all

lemma findIndex_smallest: "smallest_index p xs i \<Longrightarrow> findIndex p xs = int i"
proof (induction xs arbitrary: i)
  case Nil
  then show ?case by (simp add: smallest_index_def)
next
  case (Cons x xs)
  show ?case
  proof (cases i)
    case 0
    with Cons.prems show ?thesis by (simp add: smallest_index_def)
  next
    case (Suc j)
    with Cons.prems have "\<not> p x" and "smallest_index p xs j"
      by (simp_all add: smallest_index_def)
    with Cons.IH [of j] Suc show ?thesis by (simp add: Let_def)
  qed
qed


text \<open>
  Claim C10, as stated, fails for the empty href: \<^verbatim>\<open>if (!href || !citations)\<close> returns
  no citation and index \<open>-1\<close> before any pass, although a citation with an empty url is
  an exact match at index 0.
\<close>

theorem CitationLink_match_counterexample:
  "smallest_index (\<lambda>c. url c = js '''') [cite '''' ''Untitled''] 0
   \<and> CitationLink_match (js '''') [cite '''' ''Untitled''] = (None, - 1)
   \<and> CitationLink_match (js '''') [cite '''' ''Untitled''] \<noteq> (Some (cite '''' ''Untitled''), 0)"
  by (simp add: smallest_index_def CitationLink_match_def cite_def js_def)


text \<open>
  Claim C10, amended. \<open>CitationLink\<close> resolves the empty href to no citation and index
  \<open>-1\<close>, whatever the citations. Every href that is not empty it resolves in two ordered
  passes, each taking the earliest match: the smallest index whose url is equal to the
  href; if no url is equal to it, the smallest index whose normalized url equals the
  normalized href (normalizing is percent-decoding where that succeeds, then trimming
  white space); and if there is none either, no citation and index \<open>-1\<close>.
\<close>

theorem CitationLink_match_two_passes:
  "CitationLink_match [] citations = (None, - 1)
   \<and> (href \<noteq> [] \<and> smallest_index (\<lambda>c. url c = href) citations i
        \<longrightarrow> CitationLink_match href citations = (Some (citations ! i), int i))
   \<and> (href \<noteq> [] \<and> list_all (\<lambda>c. url c \<noteq> href) citations
        \<and> smallest_index (\<lambda>c. normalizeUrl (url c) = normalizeUrl href) citations i
        \<longrightarrow> CitationLink_match href citations = (Some (citations ! i), int i))
   \<and> (href \<noteq> [] \<and> list_all (\<lambda>c. normalizeUrl (url c) \<noteq> normalizeUrl href) citations
        \<longrightarrow> CitationLink_match href citations = (None, - 1))"
proof (intro conjI impI)
  show "CitationLink_match [] citations = (None, - 1)"
    by (simp add: CitationLink_match_def)
next
  assume "href \<noteq> [] \<and> smallest_index (\<lambda>c. url c = href) citations i"
  then have h: "href \<noteq> []" and "smallest_index (\<lambda>c. url c = href) citations i" by simp_all
  from findIndex_smallest [OF this(2)] h
  show "CitationLink_match href citations = (Some (citations ! i), int i)"
    by (simp add: CitationLink_match_def Let_def)
next
  assume "href \<noteq> [] \<and> list_all (\<lambda>c. url c \<noteq> href) citations
    \<and> smallest_index (\<lambda>c. normalizeUrl (url c) = normalizeUrl href) citations i"
  then have "href \<noteq> []" "findIndex (\<lambda>c. url c = href) citations = - 1"
    and "findIndex (\<lambda>c. normalizeUrl (url c) = normalizeUrl href) citations = int i"
    by (simp_all add: findIndex_none findIndex_smallest)
  then show "CitationLink_match href citations = (Some (citations ! i), int i)"
    by (simp add: CitationLink_match_def Let_def)
next
  assume a: "href \<noteq> [] \<and> list_all (\<lambda>c. normalizeUrl (url c) \<noteq> normalizeUrl href) citations"
  then have n: "list_all (\<lambda>c. normalizeUrl (url c) \<noteq> normalizeUrl href) citations" by simp
  then have "list_all (\<lambda>c. url c \<noteq> href) citations"
    by (auto simp: list_all_iff)
  with n have "findIndex (\<lambda>c. url c = href) citations = - 1"
    and "findIndex (\<lambda>c. normalizeUrl (url c) = normalizeUrl href) citations = - 1"
    by (simp_all add: findIndex_none)
  with a show "CitationLink_match href citations = (None, - 1)"
    by (simp add: CitationLink_match_def Let_def)
qed

theorem CitationLink_match_two_passes_witness:
  "CitationLink_match (js ''http://a.com/x y'')
     [cite ''http://b.com'' ''B'', cite ''http://a.com/x y'' ''A1'', cite ''http://a.com/x y'' ''A2'']
     = (Some (cite ''http://a.com/x y'' ''A1''), 1)
   \<and> CitationLink_match (js ''http://a.com/x%20y'')
     [cite ''http://b.com'' ''B'', cite ''http://a.com/x y'' ''A1'', cite ''http://a.com/x y'' ''A2'']
     = (Some (cite ''http://a.com/x y'' ''A1''), 1)
   \<and> CitationLink_match (js '' http://b.com '')
     [cite ''http://b.com'' ''B'', cite ''http://a.com/x y'' ''A1'', cite ''http://a.com/x y'' ''A2'']
     = (Some (cite ''http://b.com'' ''B''), 0)
   \<and> CitationLink_match (js ''http://c.com'')
     [cite ''http://b.com'' ''B'', cite ''http://a.com/x y'' ''A1'', cite ''http://a.com/x y'' ''A2'']
     = (None, - 1)
   \<and> CitationLink_match (js '''') [cite '''' ''Untitled''] = (None, - 1)"
proof -
  let ?cs = "[cite ''http://b.com'' ''B'', cite ''http://a.com/x y'' ''A1'',
              cite ''http://a.com/x y'' ''A2'']"
  have u: "url (cite a t) = js a" for a t
    by (simp add: cite_def)
  have n: "normalizeUrl (js ''http://b.com'') = js ''http://b.com''"
    "normalizeUrl (js ''http://a.com/x y'') = js ''http://a.com/x y''"
    "normalizeUrl (js ''http://a.com/x%20y'') = js ''http://a.com/x y''"
    "normalizeUrl (js '' http://b.com '') = js ''http://b.com''"
    "normalizeUrl (js ''http://c.com'') = js ''http://c.com''"
    by (simp_all add: normalizeUrl_def trim_def is_space_def uri_defs)
  have d: "js ''http://b.com'' \<noteq> js ''http://a.com/x y''"
    "js ''http://b.com'' \<noteq> js ''http://a.com/x%20y''"
    "js ''http://a.com/x y'' \<noteq> js ''http://a.com/x%20y''"
    "js ''http://b.com'' \<noteq> js '' http://b.com ''"
    "js ''http://a.com/x y'' \<noteq> js '' http://b.com ''"
    "js ''http://b.com'' \<noteq> js ''http://c.com''"
    "js ''http://a.com/x y'' \<noteq> js ''http://c.com''"
    by (simp_all add: js_def)
  have e: "js ''http://a.com/x y'' \<noteq> []" "js ''http://a.com/x%20y'' \<noteq> []"
    "js '' http://b.com '' \<noteq> []" "js ''http://c.com'' \<noteq> []"
    by (simp_all add: js_def)
  have 1: "CitationLink_match (js ''http://a.com/x y'') ?cs = (Some (cite ''http://a.com/x y'' ''A1''), 1)"
    using CitationLink_match_two_passes [of ?cs "js ''http://a.com/x y''" 1,
        THEN conjunct2, THEN conjunct1] d e
    by (simp add: smallest_index_def u)
  have 2: "CitationLink_match (js ''http://a.com/x%20y'') ?cs = (Some (cite ''http://a.com/x y'' ''A1''), 1)"
    using CitationLink_match_two_passes [of ?cs "js ''http://a.com/x%20y''" 1,
        THEN conjunct2, THEN conjunct2, THEN conjunct1] d e
    by (simp add: smallest_index_def u n)
  have 3: "CitationLink_match (js '' http://b.com '') ?cs = (Some (cite ''http://b.com'' ''B''), 0)"
    using CitationLink_match_two_passes [of ?cs "js '' http://b.com ''" 0,
        THEN conjunct2, THEN conjunct2, THEN conjunct1] d e
    by (simp add: smallest_index_def u n)
  have 4: "CitationLink_match (js ''http://c.com'') ?cs = (None, - 1)"
    using CitationLink_match_two_passes [of ?cs "js ''http://c.com''" 0,
        THEN conjunct2, THEN conjunct2, THEN conjunct2] d e
    by (simp add: u n)
  have 5: "CitationLink_match (js '''') [cite '''' ''Untitled''] = (None, - 1)"
    using CitationLink_match_two_passes [of "[cite '''' ''Untitled'']", THEN conjunct1]
    by (simp add: js_def)
  from 1 2 3 4 5 show ?thesis by blast
qed

section \<open>Properties of the citation card\<close>

lemma length_js: "length (js s) = length s"
  by (simp add: js_def)


text \<open>
  Claim C4 says that a timestamp that does not parse is shown as its first 10
  characters. The \<^verbatim>\<open>catch\<close> block that would do so is never entered for such a
  timestamp, since neither \<^verbatim>\<open>new Date\<close> nor \<^verbatim>\<open>toLocaleDateString\<close> throws on it: the
  text shown is \<^verbatim>\<open>Invalid Date\<close>, which is never the first 10 characters of anything. No
  error surfaces.
\<close>

theorem formattedDate_unparseable:
  assumes "parse a = None" and "a \<noteq> []"
  shows "formattedDate parse format (Some a) = Some (js ''Invalid Date'')
         \<and> formattedDate parse format (Some a) \<noteq> Some (slice_str a 0 10)"
proof -
  from assms have 1: "formattedDate parse format (Some a) = Some (js ''Invalid Date'')"
    by (simp add: formattedDate_def new_Date_def toLocaleDateString_def)
  have "length (slice_str a 0 10) \<le> 10" by (simp add: slice_str_def)
  moreover have "length (js ''Invalid Date'') = 12" by (simp add: length_js)
  ultimately have "js ''Invalid Date'' \<noteq> slice_str a 0 10" by auto
  with 1 show ?thesis by simp
qed

theorem formattedDate_unparseable_witness:
  "formattedDate (\<lambda>s. None) (\<lambda>t. js ''Jan 1, 2025'') (Some (js ''not-a-date''))
     = Some (js ''Invalid Date'')
   \<and> slice_str (js ''not-a-date'') 0 10 = js ''not-a-date''"
proof -
  have 1: "(\<lambda>s::jsstring. None :: int option) (js ''not-a-date'') = None" by simp
  have 2: "js ''not-a-date'' \<noteq> []" by (simp add: js_def)
  have 3: "slice_str (js ''not-a-date'') 0 10 = js ''not-a-date''"
    by (simp add: slice_str_def js_def)
  from formattedDate_unparseable [of "\<lambda>s. None" "js ''not-a-date''" "\<lambda>t. js ''Jan 1, 2025''", OF 1 2] 3
  show ?thesis by simp
qed

end
